theory Spec2Isabelle
  imports Complex_Main
begin

section \<open>The arbitrary-precision decimal capability\<close>

text \<open>
  Modelled from the spec: the Decimal capability, which the repository takes from the
  library big.js and which is not among its sources. The spec describes it as an
  arbitrary-precision signed decimal with addition, subtraction, multiplication, division,
  power by a small integer, square root and equality, whose rounding (decimal places and
  rounding mode) is a configuration fixed for the whole system. The details the spec leaves
  open follow the library's documentation: addition, subtraction, multiplication and a
  non-negative integer power are exact; division is rounded to \<open>DP\<close> decimal places in
  rounding mode \<open>RM\<close> (the library starts with 20 places, rounding half up); a method
  raises when its argument is not a number (such as \<open>undefined\<close>), division raises on a
  zero divisor and the square root raises on a negative number. The value of the square
  root of a positive number is left open (see \<open>big_sqrt\<close> below).

  A decimal is a rational number, so a Big is modelled by its value in \<^typ>\<open>rat\<close>; every
  theorem below that quantifies over Big values holds in particular for the decimal ones.
\<close>

datatype error =
    TypeError         \<comment> \<open>JavaScript: a method is called on \<open>undefined\<close>\<close>
  | InvalidNumber     \<comment> \<open>big.js: the argument is not a number (\<open>undefined\<close>, \<open>NaN\<close>)\<close>
  | InvalidPower      \<comment> \<open>big.js: the exponent is out of range\<close>
  | DivisionByZero    \<comment> \<open>big.js: division by zero\<close>
  | NoSquareRoot      \<comment> \<open>big.js: square root of a negative number\<close>

type_synonym Big = rat

datatype rounding = RoundDown | RoundHalfUp | RoundHalfEven | RoundUp

record config =
  DP :: nat
  RM :: rounding

definition default_config :: config where
  "default_config = \<lparr>DP = 20, RM = RoundHalfUp\<rparr>"

text \<open>
  Rounding keeps an integer number \<open>n\<close> of units in the last place and looks at what is
  cut off: nothing, less than half a unit, exactly half, or more.
\<close>

datatype remainder = Exact | BelowHalf | Half | AboveHalf

fun round_away :: "rounding \<Rightarrow> int \<Rightarrow> remainder \<Rightarrow> bool" where
  "round_away RoundDown n r = False"
| "round_away RoundHalfUp n r = (r = Half \<or> r = AboveHalf)"
| "round_away RoundHalfEven n r = (r = AboveHalf \<or> (r = Half \<and> odd n))"
| "round_away RoundUp n r = (r \<noteq> Exact)"

definition round_digit :: "rounding \<Rightarrow> int \<Rightarrow> remainder \<Rightarrow> int" where
  "round_digit rm n r = (if round_away rm n r then n + 1 else n)"

definition div_remainder :: "rat \<Rightarrow> remainder" where
  "div_remainder s =
     (let f = s - of_int \<lfloor>s\<rfloor>
      in if f = 0 then Exact else if f < 1 / 2 then BelowHalf
         else if f = 1 / 2 then Half else AboveHalf)"

text \<open>The argument of a library method is an element of an array, possibly \<open>undefined\<close>
  (\<open>None\<close>); the method converts it with \<open>new Big(y)\<close>, which raises on \<open>undefined\<close>.\<close>

definition big_plus :: "Big \<Rightarrow> Big option \<Rightarrow> error + Big" where
  "big_plus x arg = (case arg of None \<Rightarrow> Inl InvalidNumber | Some y \<Rightarrow> Inr (x + y))"

definition big_minus :: "Big \<Rightarrow> Big option \<Rightarrow> error + Big" where
  "big_minus x arg = (case arg of None \<Rightarrow> Inl InvalidNumber | Some y \<Rightarrow> Inr (x - y))"

definition big_times :: "Big \<Rightarrow> Big option \<Rightarrow> error + Big" where
  "big_times x arg = (case arg of None \<Rightarrow> Inl InvalidNumber | Some y \<Rightarrow> Inr (x * y))"

definition big_eq :: "Big \<Rightarrow> Big \<Rightarrow> bool" where
  "big_eq x y = (x = y)"

text \<open>\<open>big_round cfg q\<close> is \<open>q\<close> rounded to \<open>DP cfg\<close> decimal places in mode \<open>RM cfg\<close>: the
  sign is set aside, and the absolute value is cut or raised to a whole number of units.\<close>

definition big_round :: "config \<Rightarrow> rat \<Rightarrow> Big" where
  "big_round cfg q =
     (let s = \<bar>q\<bar> * 10 ^ DP cfg
      in sgn q * of_int (round_digit (RM cfg) \<lfloor>s\<rfloor> (div_remainder s)) / 10 ^ DP cfg)"

text \<open>Modelled from the spec: the division of the Decimal capability, \<open>x.div(y)\<close>. The
  quotient is rounded to \<open>DP\<close> places; a zero divisor raises, as the library documents.\<close>

definition big_div :: "config \<Rightarrow> Big \<Rightarrow> Big option \<Rightarrow> error + Big" where
  "big_div cfg x arg =
     (case arg of
        None \<Rightarrow> Inl InvalidNumber
      | Some y \<Rightarrow> if y = 0 then Inl DivisionByZero else Inr (big_round cfg (x / y)))"

text \<open>\<open>x.pow(n)\<close>: exact for an exponent from 0 to a million; a negative exponent down to
  minus a million divides 1 by the positive power, and so rounds.\<close>

definition big_pow :: "config \<Rightarrow> Big \<Rightarrow> int \<Rightarrow> error + Big" where
  "big_pow cfg x n =
     (if n < - 1000000 \<or> 1000000 < n then Inl InvalidPower
      else if n < 0 then big_div cfg 1 (Some (x ^ nat (- n)))
      else Inr (x ^ nat n))"

text \<open>The integer square root, two bits at a time.\<close>

function isqrt :: "int \<Rightarrow> int" where
  "isqrt n =
     (if n < 4 then (if n \<le> 0 then 0 else 1)
      else let r = 2 * isqrt (n div 4)
           in if (r + 1) * (r + 1) \<le> n then r + 1 else r)"
  by pat_completeness auto
termination
  by (relation "measure (\<lambda>n. nat n)") auto

definition sqrt_remainder :: "rat \<Rightarrow> int \<Rightarrow> remainder" where
  "sqrt_remainder s n =
     (if s = of_int (n * n) then Exact
      else if 4 * s < of_int ((2 * n + 1) * (2 * n + 1)) then BelowHalf
      else if 4 * s = of_int ((2 * n + 1) * (2 * n + 1)) then Half
      else AboveHalf)"

text \<open>
  Modelled from the spec: the square root of the Decimal capability, \<open>x.sqrt()\<close>. The
  library returns zero for zero and raises on a negative number. For a positive number it
  runs Newton's iteration from a native estimate, with four more decimal places than
  \<open>DP\<close>, and rounds the last iterate to \<open>DP\<close> places. The value that comes out is not
  computed here: it is the parameter \<open>library_sqrt\<close>, a function of the configuration and
  the number, and what is proved of \<open>magnitude\<close> and \<open>distance\<close> is proved for every such
  function.
\<close>

definition big_sqrt :: "(config \<Rightarrow> rat \<Rightarrow> rat) \<Rightarrow> config \<Rightarrow> Big \<Rightarrow> error + Big" where
  "big_sqrt library_sqrt cfg x =
     (if x = 0 then Inr 0
      else if x < 0 then Inl NoSquareRoot
      else Inr (library_sqrt cfg x))"

text \<open>
  One such function, for running the operations on concrete vectors: the real square root
  rounded once to \<open>DP\<close> places. The library's own root can differ from it in the last
  place, since its iterate has been rounded before; the two agree on the numbers used
  below (0, 1, 16, 25 and \<open>1.5625e-40\<close> at 20 places, rounding half up).
\<close>

definition rounded_sqrt :: "config \<Rightarrow> rat \<Rightarrow> rat" where
  "rounded_sqrt cfg x =
     (let s = x * 100 ^ DP cfg; n = isqrt \<lfloor>s\<rfloor>
      in of_int (round_digit (RM cfg) n (sqrt_remainder s n)) / 10 ^ DP cfg)"

subsection \<open>Native numbers\<close>

text \<open>
  \<open>angle\<close> leaves the decimal type for one step: \<open>new Big(Math.acos(q))\<close>. The decimal
  \<open>q\<close> is converted to the nearest native number (ties to even), which lies in the domain
  \<open>[-1, 1]\<close> of the arc cosine exactly when \<open>\<bar>q\<bar> \<le> 1 + 2\<^sup>-\<^sup>5\<^sup>3\<close>; outside it
  \<open>Math.acos\<close> gives the not-a-number value, and \<open>new Big\<close> raises on it. Inside the
  domain the native result is not computed here: it is the parameter \<open>native_acos\<close>.
\<close>

datatype number = NaN | Num rat

definition Math_acos :: "(rat \<Rightarrow> rat) \<Rightarrow> Big \<Rightarrow> number" where
  "Math_acos native_acos q =
     (if 1 + 1 / 2 ^ 53 < \<bar>q\<bar> then NaN else Num (native_acos q))"

definition new_Big :: "number \<Rightarrow> error + Big" where
  "new_Big n = (case n of NaN \<Rightarrow> Inl InvalidNumber | Num x \<Rightarrow> Inr x)"

section \<open>BigVector\<close>

record BigVector =
  components :: "Big list"

text \<open>What a JavaScript function can hand back where a vector is expected.\<close>

datatype js_value =
    JS_undefined
  | JS_null
  | JS_number number
  | JS_BigVector BigVector

text \<open>\<open>xs[i]\<close>: reading an array beyond its end gives \<open>undefined\<close>.\<close>

definition element :: "'a list \<Rightarrow> nat \<Rightarrow> 'a option" where
  "element xs i = (if i < length xs then Some (xs ! i) else None)"

text \<open>\<open>xs[i].m(...)\<close>: calling a method on \<open>undefined\<close> raises a TypeError, before the
  arguments are looked at.\<close>

definition call :: "'a option \<Rightarrow> ('a \<Rightarrow> error + 'b) \<Rightarrow> error + 'b" where
  "call receiver m = (case receiver of None \<Rightarrow> Inl TypeError | Some x \<Rightarrow> m x)"

subsection \<open>magnitude\<close>

function magnitude_loop :: "config \<Rightarrow> BigVector \<Rightarrow> nat \<Rightarrow> Big \<Rightarrow> error + Big" where
  "magnitude_loop cfg this i sumOfSquares =
     (if i < length (components this)
      then (case big_pow cfg (components this ! i) 2 of
              Inl e \<Rightarrow> Inl e
            | Inr sq \<Rightarrow>
                (case big_plus sumOfSquares (Some sq) of
                   Inl e \<Rightarrow> Inl e
                 | Inr s \<Rightarrow> magnitude_loop cfg this (i + 1) s))
      else Inr sumOfSquares)"
  by pat_completeness auto
termination
  by (relation "measure (\<lambda>(cfg, this, i, s). length (components this) - i)") auto

definition magnitude :: "config \<Rightarrow> (config \<Rightarrow> rat \<Rightarrow> rat) \<Rightarrow> BigVector \<Rightarrow> error + Big" where
  "magnitude cfg library_sqrt this =
     (case magnitude_loop cfg this 0 0 of
        Inl e \<Rightarrow> Inl e
      | Inr sumOfSquares \<Rightarrow> big_sqrt library_sqrt cfg sumOfSquares)"

subsection \<open>direction\<close>

function direction_loop ::
  "config \<Rightarrow> (config \<Rightarrow> rat \<Rightarrow> rat) \<Rightarrow> BigVector \<Rightarrow> nat \<Rightarrow> Big list \<Rightarrow> error + Big list" where
  "direction_loop cfg library_sqrt this i comps =
     (if i < length (components this)
      then (case magnitude cfg library_sqrt this of
              Inl e \<Rightarrow> Inl e
            | Inr m \<Rightarrow>
                (case big_div cfg (components this ! i) (Some m) of
                   Inl e \<Rightarrow> Inl e
                 | Inr normalizedComponent \<Rightarrow>
                     direction_loop cfg library_sqrt this (i + 1) (comps @ [normalizedComponent])))
      else Inr comps)"
  by pat_completeness auto
termination
  by (relation "measure (\<lambda>(cfg, library_sqrt, this, i, comps). length (components this) - i)") auto

definition direction :: "config \<Rightarrow> (config \<Rightarrow> rat \<Rightarrow> rat) \<Rightarrow> BigVector \<Rightarrow> error + js_value" where
  "direction cfg library_sqrt this =
     (case magnitude cfg library_sqrt this of
        Inl e \<Rightarrow> Inl e
      | Inr m \<Rightarrow>
          if \<not> big_eq m 0
          then (case direction_loop cfg library_sqrt this 0 [] of
                  Inl e \<Rightarrow> Inl e
                | Inr comps \<Rightarrow> Inr (JS_BigVector \<lparr>components = comps\<rparr>))
          else Inr (JS_number NaN))"

subsection \<open>plus, minus, scale\<close>

function plus_loop :: "BigVector \<Rightarrow> BigVector \<Rightarrow> nat \<Rightarrow> Big list \<Rightarrow> error + Big list" where
  "plus_loop this vector i comps =
     (if i < length (components this)
      then (case big_plus (components this ! i) (element (components vector) i) of
              Inl e \<Rightarrow> Inl e
            | Inr the_sum \<Rightarrow> plus_loop this vector (i + 1) (comps @ [the_sum]))
      else Inr comps)"
  by pat_completeness auto
termination
  by (relation "measure (\<lambda>(this, vector, i, comps). length (components this) - i)") auto

definition plus :: "BigVector \<Rightarrow> BigVector \<Rightarrow> error + BigVector" where
  "plus this vector =
     (case plus_loop this vector 0 [] of
        Inl e \<Rightarrow> Inl e
      | Inr comps \<Rightarrow> Inr \<lparr>components = comps\<rparr>)"

function minus_loop :: "BigVector \<Rightarrow> BigVector \<Rightarrow> nat \<Rightarrow> Big list \<Rightarrow> error + Big list" where
  "minus_loop this vector i comps =
     (if i < length (components this)
      then (case big_minus (components this ! i) (element (components vector) i) of
              Inl e \<Rightarrow> Inl e
            | Inr difference \<Rightarrow> minus_loop this vector (i + 1) (comps @ [difference]))
      else Inr comps)"
  by pat_completeness auto
termination
  by (relation "measure (\<lambda>(this, vector, i, comps). length (components this) - i)") auto

definition minus :: "BigVector \<Rightarrow> BigVector \<Rightarrow> error + BigVector" where
  "minus this vector =
     (case minus_loop this vector 0 [] of
        Inl e \<Rightarrow> Inl e
      | Inr comps \<Rightarrow> Inr \<lparr>components = comps\<rparr>)"

function scale_loop :: "BigVector \<Rightarrow> Big \<Rightarrow> nat \<Rightarrow> Big list \<Rightarrow> error + Big list" where
  "scale_loop this scalar i comps =
     (if i < length (components this)
      then (case big_times (components this ! i) (Some scalar) of
              Inl e \<Rightarrow> Inl e
            | Inr the_product \<Rightarrow> scale_loop this scalar (i + 1) (comps @ [the_product]))
      else Inr comps)"
  by pat_completeness auto
termination
  by (relation "measure (\<lambda>(this, scalar, i, comps). length (components this) - i)") auto

definition scale :: "BigVector \<Rightarrow> Big \<Rightarrow> error + BigVector" where
  "scale this scalar =
     (case scale_loop this scalar 0 [] of
        Inl e \<Rightarrow> Inl e
      | Inr comps \<Rightarrow> Inr \<lparr>components = comps\<rparr>)"

subsection \<open>dot, distance\<close>

function dot_loop :: "BigVector \<Rightarrow> BigVector \<Rightarrow> nat \<Rightarrow> Big \<Rightarrow> error + Big" where
  "dot_loop this vector i the_sum =
     (if i < length (components this)
      then (case big_times (components this ! i) (element (components vector) i) of
              Inl e \<Rightarrow> Inl e
            | Inr the_product \<Rightarrow>
                (case big_plus the_sum (Some the_product) of
                   Inl e \<Rightarrow> Inl e
                 | Inr s \<Rightarrow> dot_loop this vector (i + 1) s))
      else Inr the_sum)"
  by pat_completeness auto
termination
  by (relation "measure (\<lambda>(this, vector, i, s). length (components this) - i)") auto

definition dot :: "BigVector \<Rightarrow> BigVector \<Rightarrow> error + Big" where
  "dot this vector = dot_loop this vector 0 0"

function distance_loop :: "config \<Rightarrow> BigVector \<Rightarrow> BigVector \<Rightarrow> nat \<Rightarrow> Big \<Rightarrow> error + Big" where
  "distance_loop cfg this vector i squaresOfDifs =
     (if i < length (components this)
      then (case big_minus (components this ! i) (element (components vector) i) of
              Inl e \<Rightarrow> Inl e
            | Inr dif \<Rightarrow>
                (case big_pow cfg dif 2 of
                   Inl e \<Rightarrow> Inl e
                 | Inr sq \<Rightarrow>
                     (case big_plus squaresOfDifs (Some sq) of
                        Inl e \<Rightarrow> Inl e
                      | Inr s \<Rightarrow> distance_loop cfg this vector (i + 1) s)))
      else Inr squaresOfDifs)"
  by pat_completeness auto
termination
  by (relation "measure (\<lambda>(cfg, this, vector, i, s). length (components this) - i)") auto

definition distance ::
  "config \<Rightarrow> (config \<Rightarrow> rat \<Rightarrow> rat) \<Rightarrow> BigVector \<Rightarrow> BigVector \<Rightarrow> error + Big" where
  "distance cfg library_sqrt this vector =
     (case distance_loop cfg this vector 0 0 of
        Inl e \<Rightarrow> Inl e
      | Inr squaresOfDifs \<Rightarrow> big_sqrt library_sqrt cfg squaresOfDifs)"

subsection \<open>cross\<close>

text \<open>\<open>this.components[i].times(vector.components[j])\<close>\<close>

definition times_at :: "BigVector \<Rightarrow> nat \<Rightarrow> BigVector \<Rightarrow> nat \<Rightarrow> error + Big" where
  "times_at this i vector j =
     call (element (components this) i) (\<lambda>c. big_times c (element (components vector) j))"

text \<open>\<open>a.minus(b)\<close>, where \<open>a\<close> and then \<open>b\<close> are the results of calls that may raise.\<close>

definition minus_of :: "error + Big \<Rightarrow> error + Big \<Rightarrow> error + Big" where
  "minus_of a b =
     (case a of
        Inl e \<Rightarrow> Inl e
      | Inr p \<Rightarrow> (case b of Inl e \<Rightarrow> Inl e | Inr q \<Rightarrow> big_minus p (Some q)))"

definition cross :: "BigVector \<Rightarrow> BigVector \<Rightarrow> error + BigVector" where
  "cross this vector =
     (case minus_of (times_at this 1 vector 2) (times_at this 2 vector 1) of
        Inl e \<Rightarrow> Inl e
      | Inr x \<Rightarrow>
          (case minus_of (times_at this 2 vector 0) (times_at this 0 vector 2) of
             Inl e \<Rightarrow> Inl e
           | Inr y \<Rightarrow>
               (case minus_of (times_at this 0 vector 1) (times_at this 1 vector 0) of
                  Inl e \<Rightarrow> Inl e
                | Inr z \<Rightarrow> Inr \<lparr>components = [x, y, z]\<rparr>)))"

subsection \<open>angle, polarCoords\<close>

definition angle ::
  "config \<Rightarrow> (config \<Rightarrow> rat \<Rightarrow> rat) \<Rightarrow> (rat \<Rightarrow> rat) \<Rightarrow> BigVector \<Rightarrow> BigVector
     \<Rightarrow> error + Big" where
  "angle cfg library_sqrt native_acos this vector =
     (case dot this vector of
        Inl e \<Rightarrow> Inl e
      | Inr numerator \<Rightarrow>
          (case magnitude cfg library_sqrt this of
             Inl e \<Rightarrow> Inl e
           | Inr m \<Rightarrow>
               (case magnitude cfg library_sqrt vector of
                  Inl e \<Rightarrow> Inl e
                | Inr m' \<Rightarrow>
                    (case big_times m (Some m') of
                       Inl e \<Rightarrow> Inl e
                     | Inr denominator \<Rightarrow>
                         (case big_div cfg numerator (Some denominator) of
                            Inl e \<Rightarrow> Inl e
                          | Inr q \<Rightarrow> new_Big (Math_acos native_acos q))))))"

definition polarCoords ::
  "config \<Rightarrow> (config \<Rightarrow> rat \<Rightarrow> rat) \<Rightarrow> (rat \<Rightarrow> rat) \<Rightarrow> BigVector \<Rightarrow> error + Big \<times> Big" where
  "polarCoords cfg library_sqrt native_acos this =
     (case magnitude cfg library_sqrt this of
        Inl e \<Rightarrow> Inl e
      | Inr magnitude' \<Rightarrow>
          if \<not> big_eq magnitude' 0
          then (case angle cfg library_sqrt native_acos this \<lparr>components = [1, 0]\<rparr> of
                  Inl e \<Rightarrow> Inl e
                | Inr angle' \<Rightarrow> Inr (magnitude', angle'))
          else Inr (magnitude', 0))"

subsection \<open>distance, as the specification words it\<close>

text \<open>The specification asks for \<open>distance\<close> to be \<open>self.minus(other).magnitude()\<close>; the
  source writes the loop out instead. This is the specification's wording, for comparison.\<close>

definition distance_spec ::
  "config \<Rightarrow> (config \<Rightarrow> rat \<Rightarrow> rat) \<Rightarrow> BigVector \<Rightarrow> BigVector \<Rightarrow> error + Big" where
  "distance_spec cfg library_sqrt this vector =
     (case minus this vector of
        Inl e \<Rightarrow> Inl e
      | Inr difference \<Rightarrow> magnitude cfg library_sqrt difference)"

section \<open>The component array as a shared object\<close>

text \<open>
  The operations above only read \<open>this.components\<close>, so they are stated on the content of
  that array. Who else holds the array matters for the constructor and for
  \<open>getComponents\<close>: the constructor stores the array it is given (\<open>this.components =
  components\<close>, a reference, not a copy), and \<open>getComponents\<close> returns
  \<open>this.components\<close>, the same reference. A heap maps each array reference to the array's
  current content; a vector object holds the reference. No operation writes to an array
  that exists: a vector that an operation returns is built on an array of its own
  (\<open>var components = []\<close>), and is given here by its content.
\<close>

type_synonym ref = nat

type_synonym heap = "ref \<Rightarrow> Big list option"

record BigVector_object =
  components_ref :: ref

definition BigVector_new :: "ref \<Rightarrow> BigVector_object" where
  "BigVector_new a = \<lparr>components_ref = a\<rparr>"

definition getComponents :: "BigVector_object \<Rightarrow> ref" where
  "getComponents this = components_ref this"

text \<open>\<open>a[i] = x\<close> by a caller that holds the array \<open>a\<close>: the element is replaced, or added
  when \<open>i\<close> is the length. (An index further out would leave holes in the array; such
  arrays are not arrays of Big, and the model gives no heap for them.)\<close>

definition array_assign :: "heap \<Rightarrow> ref \<Rightarrow> nat \<Rightarrow> Big \<Rightarrow> heap option" where
  "array_assign h a i x =
     (case h a of
        None \<Rightarrow> None
      | Some xs \<Rightarrow>
          if i < length xs then Some (h(a \<mapsto> xs[i := x]))
          else if i = length xs then Some (h(a \<mapsto> xs @ [x]))
          else None)"

text \<open>A method call \<open>v.m()\<close> or \<open>v.m(w)\<close> on vector objects: the operation \<open>m\<close> runs on
  the current content of the arrays that the objects refer to.\<close>

definition deref :: "heap \<Rightarrow> BigVector_object \<Rightarrow> BigVector option" where
  "deref h this = (case h (components_ref this) of
                     None \<Rightarrow> None
                   | Some cs \<Rightarrow> Some \<lparr>components = cs\<rparr>)"

definition invoke :: "heap \<Rightarrow> BigVector_object \<Rightarrow> (BigVector \<Rightarrow> error + 'a) \<Rightarrow> error + 'a" where
  "invoke h this m = (case deref h this of None \<Rightarrow> Inl TypeError | Some v \<Rightarrow> m v)"

definition invoke2 ::
  "heap \<Rightarrow> BigVector_object \<Rightarrow> BigVector_object \<Rightarrow> (BigVector \<Rightarrow> BigVector \<Rightarrow> error + 'a)
     \<Rightarrow> error + 'a" where
  "invoke2 h this vector m =
     (case deref h this of
        None \<Rightarrow> Inl TypeError
      | Some v \<Rightarrow> (case deref h vector of None \<Rightarrow> Inl TypeError | Some w \<Rightarrow> m v w))"

text \<open>A heap with one array, holding (3, 4), and the same heap after \<open>a[0] = 0\<close>.\<close>

definition heap_3_4 :: heap where
  "heap_3_4 = Map.empty(0 \<mapsto> [3, 4])"

definition heap_0_4 :: heap where
  "heap_0_4 = Map.empty(0 \<mapsto> [0, 4])"

section \<open>The decimal square root\<close>

declare isqrt.simps [simp del]

text \<open>
  \<open>isqrt n\<close> is the integer part of the square root of \<open>n\<close>.
\<close>

lemma isqrt_bounds:
  "0 \<le> n \<Longrightarrow> 0 \<le> isqrt n \<and> isqrt n * isqrt n \<le> n \<and> n < (isqrt n + 1) * (isqrt n + 1)"
proof (induction n rule: isqrt.induct)
  case (1 n)
  show ?case
  proof (cases "n < 4")
    case True
    with "1.prems" show ?thesis
      by (subst (1 2 3 4 5) isqrt.simps) auto
  next
    case False
    define r where "r = isqrt (n div 4)"
    from False "1.prems" have "0 \<le> n div 4" by simp
    with "1.IH" False have ih: "0 \<le> r" "r * r \<le> n div 4" "n div 4 < (r + 1) * (r + 1)"
      by (simp_all add: r_def)
    have eq: "isqrt n = (if (2 * r + 1) * (2 * r + 1) \<le> n then 2 * r + 1 else 2 * r)"
      using False by (subst isqrt.simps) (simp add: r_def Let_def)
    from ih(2) have lo: "4 * (r * r) \<le> n" by linarith
    from ih(3) have "n div 4 + 1 \<le> (r + 1) * (r + 1)" by linarith
    then have hi: "n < 4 * ((r + 1) * (r + 1))" by linarith
    show ?thesis
    proof (cases "(2 * r + 1) * (2 * r + 1) \<le> n")
      case True
      then have "isqrt n = 2 * r + 1" using eq by simp
      moreover have "(2 * r + 1 + 1) * (2 * r + 1 + 1) = 4 * ((r + 1) * (r + 1))"
        by (simp add: algebra_simps)
      ultimately show ?thesis using True hi ih(1) by simp
    next
      case F2: False
      then have "isqrt n = 2 * r" using eq by simp
      moreover have "2 * r * (2 * r) = 4 * (r * r)" by simp
      ultimately show ?thesis using F2 lo ih(1) by simp
    qed
  qed
qed

lemma isqrt_square:
  assumes "0 \<le> k"
  shows "isqrt (k * k) = k"
proof -
  define r where "r = isqrt (k * k)"
  have "0 \<le> k * k" using assms by simp
  from isqrt_bounds [OF this]
  have r0: "0 \<le> r" and lo: "r * r \<le> k * k" and hi: "k * k < (r + 1) * (r + 1)"
    by (simp_all add: r_def)
  have "r \<le> k"
  proof (rule ccontr)
    assume "\<not> r \<le> k"
    then have "k < r" by simp
    then have "k * k < r * r"
      using assms by (intro mult_strict_mono') simp_all
    with lo show False by simp
  qed
  moreover have "k < r + 1"
  proof (rule ccontr)
    assume "\<not> k < r + 1"
    then have "r + 1 \<le> k" by simp
    then have "(r + 1) * (r + 1) \<le> k * k"
      using r0 by (intro mult_mono) simp_all
    with hi show False by simp
  qed
  ultimately show ?thesis by (simp add: r_def)
qed

lemma isqrt_0: "isqrt 0 = 0"
  by (subst isqrt.simps) simp

text \<open>
  Rounding keeps the digit or adds one, and adds one only when something was cut off.
\<close>

lemma round_digit_cases:
  "round_digit rm n r = n \<or> (round_digit rm n r = n + 1 \<and> r \<noteq> Exact)"
  by (cases rm; cases r) (simp_all add: round_digit_def)

lemma big_sqrt_0: "big_sqrt library_sqrt cfg 0 = Inr 0"
  by (simp add: big_sqrt_def)

lemma big_sqrt_pos: "0 < x \<Longrightarrow> big_sqrt library_sqrt cfg x = Inr (library_sqrt cfg x)"
  by (simp add: big_sqrt_def)

lemma big_sqrt_returns: "0 \<le> x \<Longrightarrow> \<exists>m. big_sqrt library_sqrt cfg x = Inr m"
  by (simp add: big_sqrt_def)

text \<open>
  The once-rounded root of the square of a whole number is exact, in every configuration.
\<close>

lemma rounded_sqrt_square:
  assumes "0 \<le> k"
  shows "rounded_sqrt cfg (of_int (k * k)) = of_int k"
proof -
  define n where "n = k * 10 ^ DP cfg"
  have n0: "0 \<le> n" using assms by (simp add: n_def)
  have p: "(of_int (k * k) :: rat) * 100 ^ DP cfg = of_int (n * n)"
    by (simp add: n_def power_mult_distrib [symmetric])
  have i: "isqrt (n * n) = n"
    by (rule isqrt_square [OF n0])
  have r: "round_digit (RM cfg) n Exact = n"
    by (cases "RM cfg") (simp_all add: round_digit_def)
  have "rounded_sqrt cfg (of_int (k * k)) = of_int n / 10 ^ DP cfg"
    unfolding rounded_sqrt_def Let_def
    by (simp only: p floor_of_int i sqrt_remainder_def simp_thms if_True r)
  then show ?thesis by (simp add: n_def)
qed

text \<open>
  The once-rounded root of a non-negative number is less than one unit of the last decimal
  place away from the real square root, in every rounding mode.
\<close>

lemma rounded_sqrt_close:
  assumes "0 \<le> x"
  shows "0 \<le> rounded_sqrt cfg x
       \<and> \<bar>real_of_rat (rounded_sqrt cfg x) - sqrt (real_of_rat x)\<bar> < 1 / 10 ^ DP cfg"
proof -
  define s where "s = x * 100 ^ DP cfg"
  define n where "n = isqrt \<lfloor>s\<rfloor>"
  define k where "k = round_digit (RM cfg) n (sqrt_remainder s n)"
  define m where "m = (of_int k :: rat) / 10 ^ DP cfg"
  define S where "S = real_of_rat s"
  define N where "N = real_of_int n"
  have s0: "0 \<le> s" using assms by (simp add: s_def)
  then have fl0: "0 \<le> \<lfloor>s\<rfloor>" by simp
  from isqrt_bounds [OF fl0]
  have n0: "0 \<le> n" and lo: "n * n \<le> \<lfloor>s\<rfloor>" and hi: "\<lfloor>s\<rfloor> < (n + 1) * (n + 1)"
    by (simp_all add: n_def)
  have m: "rounded_sqrt cfg x = m"
    by (simp add: rounded_sqrt_def Let_def m_def k_def n_def s_def)
  have los: "of_int (n * n) \<le> s"
    using lo by (simp only: le_floor_iff)
  have his: "s < of_int ((n + 1) * (n + 1))"
    using hi by (simp only: floor_less_iff)
  have N0: "0 \<le> N" using n0 by (simp add: N_def)
  have "real_of_rat (of_int (n * n)) \<le> real_of_rat s"
    using los by (simp only: of_rat_less_eq)
  then have loS: "N * N \<le> S"
    by (simp add: S_def N_def of_rat_mult)
  have "real_of_rat s < real_of_rat (of_int ((n + 1) * (n + 1)))"
    using his by (simp only: of_rat_less)
  then have hiS: "S < (N + 1) * (N + 1)"
    by (simp add: S_def N_def of_rat_mult of_rat_add)
  have r1: "N \<le> sqrt S"
    using loS by (simp add: real_le_rsqrt power2_eq_square)
  have r2: "sqrt S < N + 1"
    using hiS N0 by (intro real_less_lsqrt) (simp_all add: power2_eq_square)
  have "S = real_of_rat x * (10 ^ DP cfg) ^ 2"
    by (simp add: S_def s_def of_rat_mult of_rat_power power_mult_distrib [symmetric]
        power2_eq_square)
  then have sq: "sqrt S = sqrt (real_of_rat x) * 10 ^ DP cfg"
    by (simp add: real_sqrt_mult)
  have kcases: "k = n \<or> (k = n + 1 \<and> s \<noteq> of_int (n * n))"
    using round_digit_cases [of "RM cfg" n "sqrt_remainder s n"]
    by (auto simp: k_def sqrt_remainder_def split: if_splits)
  have close: "\<bar>real_of_int k - sqrt S\<bar> < 1"
    using kcases
  proof
    assume "k = n"
    then show ?thesis using r1 r2 by (simp add: N_def)
  next
    assume a: "k = n + 1 \<and> s \<noteq> of_int (n * n)"
    then have "of_int (n * n) < s" using los by simp
    then have "real_of_rat (of_int (n * n)) < real_of_rat s"
      by (simp only: of_rat_less)
    then have "N * N < S"
      by (simp add: S_def N_def of_rat_mult)
    then have "N < sqrt S"
      using N0 by (intro real_less_rsqrt) (simp add: power2_eq_square)
    then show ?thesis using a r2 by (simp add: N_def)
  qed
  have k0: "0 \<le> k" using kcases n0 by auto
  have m0: "0 \<le> m" using k0 by (simp add: m_def)
  have "real_of_rat m - sqrt (real_of_rat x) = (real_of_int k - sqrt S) / 10 ^ DP cfg"
    by (simp add: m_def sq of_rat_divide of_rat_power diff_divide_distrib)
  then have "\<bar>real_of_rat m - sqrt (real_of_rat x)\<bar> = \<bar>real_of_int k - sqrt S\<bar> / 10 ^ DP cfg"
    by (simp add: abs_divide)
  also have "\<dots> < 1 / 10 ^ DP cfg"
    using close by (simp add: divide_strict_right_mono)
  finally show ?thesis using m m0 by simp
qed

section \<open>The decimal quotient\<close>

text \<open>
  A rounded quotient is less than one unit of the last decimal place away from the exact one.
\<close>

lemma big_round_close: "\<bar>big_round cfg q - q\<bar> < 1 / 10 ^ DP cfg"
proof -
  define p :: rat where "p = 10 ^ DP cfg"
  define s where "s = \<bar>q\<bar> * p"
  define k where "k = round_digit (RM cfg) \<lfloor>s\<rfloor> (div_remainder s)"
  have p0: "0 < p" by (simp add: p_def)
  have kcases: "k = \<lfloor>s\<rfloor> \<or> (k = \<lfloor>s\<rfloor> + 1 \<and> s \<noteq> of_int \<lfloor>s\<rfloor>)"
    using round_digit_cases [of "RM cfg" "\<lfloor>s\<rfloor>" "div_remainder s"]
    by (auto simp: k_def div_remainder_def Let_def split: if_splits)
  have fl: "s < of_int \<lfloor>s\<rfloor> + 1"
    by linarith
  have close: "\<bar>of_int k - s\<bar> < 1"
    using kcases
  proof
    assume "k = \<lfloor>s\<rfloor>"
    then show ?thesis using fl by simp
  next
    assume a: "k = \<lfloor>s\<rfloor> + 1 \<and> s \<noteq> of_int \<lfloor>s\<rfloor>"
    then have ne: "s \<noteq> of_int \<lfloor>s\<rfloor>" by (rule conjunct2)
    have "of_int \<lfloor>s\<rfloor> < s"
      using of_int_floor_le [of s] ne [symmetric] by (simp only: less_le simp_thms)
    then show ?thesis using a fl by simp
  qed
  have r: "big_round cfg q = sgn q * of_int k / p"
    by (simp add: big_round_def Let_def k_def s_def p_def)
  have q: "q = sgn q * s / p"
    using p0 by (simp add: s_def sgn_mult_abs)
  have "big_round cfg q - q = sgn q * (of_int k - s) / p"
    by (subst (2) q) (simp add: r algebra_simps diff_divide_distrib)
  then have "\<bar>big_round cfg q - q\<bar> = \<bar>sgn q\<bar> * \<bar>of_int k - s\<bar> / p"
    using p0 by (simp add: abs_mult)
  also have "\<dots> \<le> \<bar>of_int k - s\<bar> / p"
    using p0 by (cases "q = 0") (simp_all add: divide_right_mono)
  also have "\<dots> < 1 / p"
    using close p0 by (simp add: divide_strict_right_mono)
  finally show ?thesis by (simp add: p_def)
qed

section \<open>magnitude\<close>

declare magnitude_loop.simps [simp del]

text \<open>
  The loop adds the squares of the components from index \<open>i\<close> on to what it has.
\<close>

lemma magnitude_loop_sum:
  "magnitude_loop cfg this i acc =
     Inr (acc + sum_list (map (\<lambda>c. c ^ 2) (drop i (components this))))"
proof (induction cfg this i acc rule: magnitude_loop.induct)
  case (1 cfg this i acc)
  show ?case
  proof (cases "i < length (components this)")
    case True
    then have d: "drop i (components this) = components this ! i # drop (Suc i) (components this)"
      by (simp add: Cons_nth_drop_Suc)
    have "magnitude_loop cfg this i acc = magnitude_loop cfg this (i + 1) (acc + (components this ! i) ^ 2)"
      using True by (subst magnitude_loop.simps) (simp add: big_pow_def big_plus_def)
    also have "\<dots> = Inr (acc + (components this ! i) ^ 2
        + sum_list (map (\<lambda>c. c ^ 2) (drop (i + 1) (components this))))"
      using True by (intro "1.IH") (simp_all add: big_pow_def big_plus_def)
    finally show ?thesis by (simp add: d)
  next
    case False
    then show ?thesis by (subst magnitude_loop.simps) simp
  qed
qed



lemma sum_squares_nonneg: "0 \<le> (\<Sum>c\<leftarrow>cs. (c::rat) ^ 2)"
  by (induction cs) simp_all

lemma magnitude_eq:
  "magnitude cfg library_sqrt v = big_sqrt library_sqrt cfg (\<Sum>c\<leftarrow>components v. c ^ 2)"
  by (simp add: magnitude_def magnitude_loop_sum)

lemma magnitude_returns: "\<exists>m. magnitude cfg library_sqrt v = Inr m"
  using big_sqrt_returns [OF sum_squares_nonneg, of library_sqrt cfg "components v"]
  by (simp add: magnitude_eq)

lemma sum_squares_zero: "(\<forall>c\<in>set cs. c = 0) \<Longrightarrow> (\<Sum>c\<leftarrow>cs. (c::rat) ^ 2) = 0"
  by (induction cs) simp_all

lemma sum_squares_pos: "\<exists>c\<in>set cs. c \<noteq> 0 \<Longrightarrow> 0 < (\<Sum>c\<leftarrow>cs. (c::rat) ^ 2)"
proof (induction cs)
  case Nil
  then show ?case by simp
next
  case (Cons a cs)
  show ?case
  proof (cases "a = 0")
    case True
    with Cons show ?thesis by simp
  next
    case False
    then have "0 < a ^ 2" by simp
    moreover have "0 \<le> (\<Sum>c\<leftarrow>cs. c ^ 2)" by (rule sum_squares_nonneg)
    ultimately have "0 < a ^ 2 + (\<Sum>c\<leftarrow>cs. c ^ 2)" by (rule add_pos_nonneg)
    then show ?thesis by simp
  qed
qed

lemma magnitude_unit_x:
  "magnitude cfg library_sqrt \<lparr>components = [1, 0]\<rparr> = Inr (library_sqrt cfg 1)"
  by (simp add: magnitude_eq big_sqrt_def)

text \<open>
  Claim C5. For every vector, \<open>magnitude()\<close> returns the square root of the sum of the
  squares of all components: the sum is exact, the root is the library's root of that sum,
  and the call never raises. It returns the exact zero when all components are zero.
  The vector (3, 4) has the sum of squares 25, so its magnitude is the library's root of
  25: exactly 5, the library's root of 25 being 5. (The statement needs no bound on the
  dimension; it holds for the empty vector as well.)
\<close>

theorem magnitude_sqrt_sum_squares:
  "magnitude cfg library_sqrt v = big_sqrt library_sqrt cfg (\<Sum>c\<leftarrow>components v. c ^ 2)
   \<and> (\<exists>m. magnitude cfg library_sqrt v = Inr m)
   \<and> ((\<forall>c\<in>set (components v). c = 0) \<longrightarrow> magnitude cfg library_sqrt v = Inr 0)
   \<and> ((\<exists>c\<in>set (components v). c \<noteq> 0) \<longrightarrow>
        magnitude cfg library_sqrt v = Inr (library_sqrt cfg (\<Sum>c\<leftarrow>components v. c ^ 2)))
   \<and> magnitude cfg library_sqrt \<lparr>components = [3, 4]\<rparr> = Inr (library_sqrt cfg 25)
   \<and> (library_sqrt cfg 25 = 5 \<longrightarrow> magnitude cfg library_sqrt \<lparr>components = [3, 4]\<rparr> = Inr 5)"
proof (intro conjI impI)
  show "magnitude cfg library_sqrt v = big_sqrt library_sqrt cfg (\<Sum>c\<leftarrow>components v. c ^ 2)"
    by (rule magnitude_eq)
  show "\<exists>m. magnitude cfg library_sqrt v = Inr m"
    by (rule magnitude_returns)
  show "magnitude cfg library_sqrt v = Inr 0" if "\<forall>c\<in>set (components v). c = 0"
    using that by (simp add: magnitude_eq sum_squares_zero big_sqrt_0)
  show "magnitude cfg library_sqrt v = Inr (library_sqrt cfg (\<Sum>c\<leftarrow>components v. c ^ 2))"
    if "\<exists>c\<in>set (components v). c \<noteq> 0"
    using sum_squares_pos [OF that] by (simp add: magnitude_eq big_sqrt_pos)
  show t: "magnitude cfg library_sqrt \<lparr>components = [3, 4]\<rparr> = Inr (library_sqrt cfg 25)"
    by (simp add: magnitude_eq big_sqrt_def)
  show "magnitude cfg library_sqrt \<lparr>components = [3, 4]\<rparr> = Inr 5" if "library_sqrt cfg 25 = 5"
    using that t by simp
qed

theorem magnitude_sqrt_sum_squares_witness:
  "set (components \<lparr>components = [0, 0]\<rparr>) = {0}
   \<and> magnitude default_config rounded_sqrt \<lparr>components = [0, 0]\<rparr> = Inr 0
   \<and> rounded_sqrt default_config 25 = 5
   \<and> magnitude default_config rounded_sqrt \<lparr>components = [3, 4]\<rparr> = Inr 5"
proof -
  have r: "rounded_sqrt default_config 25 = 5"
    using rounded_sqrt_square [of 5 default_config] by simp
  from magnitude_sqrt_sum_squares [of default_config rounded_sqrt "\<lparr>components = [0, 0]\<rparr>"]
       magnitude_sqrt_sum_squares [of default_config rounded_sqrt "\<lparr>components = [3, 4]\<rparr>"]
  show ?thesis using r by auto
qed

section \<open>The loops over two vectors, in closed form\<close>

declare plus_loop.simps [simp del]
declare minus_loop.simps [simp del]
declare scale_loop.simps [simp del]
declare dot_loop.simps [simp del]
declare distance_loop.simps [simp del]
declare direction_loop.simps [simp del]

text \<open>
  Each loop runs over the indices of the receiver. It reads the argument at the same
  indices, so it ends normally when the receiver is not longer than the argument, and it
  stops with the library's error at the first index that the argument does not have.
\<close>

lemma element_in [simp]: "i < length xs \<Longrightarrow> element xs i = Some (xs ! i)"
  by (simp add: element_def)

lemma element_out [simp]: "length xs \<le> i \<Longrightarrow> element xs i = None"
  by (simp add: element_def)

lemma plus_loop_eq:
  "plus_loop this vector i comps =
     (if length (components this) \<le> length (components vector) \<or> length (components this) \<le> i
      then Inr (comps @ map (\<lambda>k. components this ! k + components vector ! k)
                          [i..<length (components this)])
      else Inl InvalidNumber)"
proof (induction this vector i comps rule: plus_loop.induct)
  case (1 this vector i comps)
  show ?case
  proof (cases "i < length (components this)")
    case False
    then show ?thesis by (subst plus_loop.simps) simp
  next
    case True
    show ?thesis
    proof (cases "i < length (components vector)")
      case False
      with True show ?thesis
        by (subst plus_loop.simps) (simp add: big_plus_def)
    next
      case inw: True
      have step: "plus_loop this vector i comps =
          plus_loop this vector (i + 1) (comps @ [components this ! i + components vector ! i])"
        using True inw by (subst plus_loop.simps) (simp add: big_plus_def)
      have ih: "plus_loop this vector (i + 1) (comps @ [components this ! i + components vector ! i]) =
         (if length (components this) \<le> length (components vector) \<or> length (components this) \<le> i + 1
          then Inr ((comps @ [components this ! i + components vector ! i])
                    @ map (\<lambda>k. components this ! k + components vector ! k)
                          [i + 1..<length (components this)])
          else Inl InvalidNumber)"
        using True inw by (intro "1.IH") (simp_all add: big_plus_def)
      show ?thesis
        using True inw unfolding step ih
        by (auto simp: upt_conv_Cons)
    qed
  qed
qed

lemma minus_loop_eq:
  "minus_loop this vector i comps =
     (if length (components this) \<le> length (components vector) \<or> length (components this) \<le> i
      then Inr (comps @ map (\<lambda>k. components this ! k - components vector ! k)
                          [i..<length (components this)])
      else Inl InvalidNumber)"
proof (induction this vector i comps rule: minus_loop.induct)
  case (1 this vector i comps)
  show ?case
  proof (cases "i < length (components this)")
    case False
    then show ?thesis by (subst minus_loop.simps) simp
  next
    case True
    show ?thesis
    proof (cases "i < length (components vector)")
      case False
      with True show ?thesis
        by (subst minus_loop.simps) (simp add: big_minus_def)
    next
      case inw: True
      have step: "minus_loop this vector i comps =
          minus_loop this vector (i + 1) (comps @ [components this ! i - components vector ! i])"
        using True inw by (subst minus_loop.simps) (simp add: big_minus_def)
      have ih: "minus_loop this vector (i + 1) (comps @ [components this ! i - components vector ! i]) =
         (if length (components this) \<le> length (components vector) \<or> length (components this) \<le> i + 1
          then Inr ((comps @ [components this ! i - components vector ! i])
                    @ map (\<lambda>k. components this ! k - components vector ! k)
                          [i + 1..<length (components this)])
          else Inl InvalidNumber)"
        using True inw by (intro "1.IH") (simp_all add: big_minus_def)
      show ?thesis
        using True inw unfolding step ih
        by (auto simp: upt_conv_Cons)
    qed
  qed
qed


lemma dot_loop_eq:
  "dot_loop this vector i acc =
     (if length (components this) \<le> length (components vector) \<or> length (components this) \<le> i
      then Inr (acc + (\<Sum>k\<leftarrow>[i..<length (components this)].
                          components this ! k * components vector ! k))
      else Inl InvalidNumber)"
proof (induction this vector i acc rule: dot_loop.induct)
  case (1 this vector i acc)
  show ?case
  proof (cases "i < length (components this)")
    case False
    then show ?thesis by (subst dot_loop.simps) simp
  next
    case True
    show ?thesis
    proof (cases "i < length (components vector)")
      case False
      with True show ?thesis
        by (subst dot_loop.simps) (simp add: big_times_def)
    next
      case inw: True
      have step: "dot_loop this vector i acc =
          dot_loop this vector (i + 1) (acc + components this ! i * components vector ! i)"
        using True inw by (subst dot_loop.simps) (simp add: big_times_def big_plus_def)
      have ih: "dot_loop this vector (i + 1) (acc + components this ! i * components vector ! i) =
         (if length (components this) \<le> length (components vector) \<or> length (components this) \<le> i + 1
          then Inr (acc + components this ! i * components vector ! i
                    + (\<Sum>k\<leftarrow>[i + 1..<length (components this)].
                          components this ! k * components vector ! k))
          else Inl InvalidNumber)"
        using True inw by (intro "1.IH") (simp_all add: big_times_def big_plus_def)
      show ?thesis
        using True inw unfolding step ih
        by (auto simp: upt_conv_Cons)
    qed
  qed
qed

lemma distance_loop_eq:
  "distance_loop cfg this vector i acc =
     (if length (components this) \<le> length (components vector) \<or> length (components this) \<le> i
      then Inr (acc + (\<Sum>k\<leftarrow>[i..<length (components this)].
                          (components this ! k - components vector ! k) ^ 2))
      else Inl InvalidNumber)"
proof (induction cfg this vector i acc rule: distance_loop.induct)
  case (1 cfg this vector i acc)
  show ?case
  proof (cases "i < length (components this)")
    case False
    then show ?thesis by (subst distance_loop.simps) simp
  next
    case True
    show ?thesis
    proof (cases "i < length (components vector)")
      case False
      with True show ?thesis
        by (subst distance_loop.simps) (simp add: big_minus_def)
    next
      case inw: True
      have step: "distance_loop cfg this vector i acc =
          distance_loop cfg this vector (i + 1)
            (acc + (components this ! i - components vector ! i) ^ 2)"
        using True inw
        by (subst distance_loop.simps) (simp add: big_minus_def big_pow_def big_plus_def)
      have ih: "distance_loop cfg this vector (i + 1)
            (acc + (components this ! i - components vector ! i) ^ 2) =
         (if length (components this) \<le> length (components vector) \<or> length (components this) \<le> i + 1
          then Inr (acc + (components this ! i - components vector ! i) ^ 2
                    + (\<Sum>k\<leftarrow>[i + 1..<length (components this)].
                          (components this ! k - components vector ! k) ^ 2))
          else Inl InvalidNumber)"
        using True inw
        by (intro "1.IH") (simp_all add: big_minus_def big_pow_def big_plus_def)
      show ?thesis
        using True inw unfolding step ih
        by (auto simp: upt_conv_Cons)
    qed
  qed
qed

lemma scale_loop_eq:
  "scale_loop this scalar i comps =
     Inr (comps @ map (\<lambda>k. components this ! k * scalar) [i..<length (components this)])"
proof (induction this scalar i comps rule: scale_loop.induct)
  case (1 this scalar i comps)
  show ?case
  proof (cases "i < length (components this)")
    case False
    then show ?thesis by (subst scale_loop.simps) simp
  next
    case True
    have step: "scale_loop this scalar i comps =
        scale_loop this scalar (i + 1) (comps @ [components this ! i * scalar])"
      using True by (subst scale_loop.simps) (simp add: big_times_def)
    have ih: "scale_loop this scalar (i + 1) (comps @ [components this ! i * scalar]) =
        Inr ((comps @ [components this ! i * scalar])
             @ map (\<lambda>k. components this ! k * scalar) [i + 1..<length (components this)])"
      using True by (intro "1.IH") (simp_all add: big_times_def)
    show ?thesis
      using True unfolding step ih by (simp add: upt_conv_Cons)
  qed
qed

lemma plus_eq:
  "plus this vector =
     (if length (components this) \<le> length (components vector)
      then Inr \<lparr>components = map (\<lambda>k. components this ! k + components vector ! k)
                               [0..<length (components this)]\<rparr>
      else Inl InvalidNumber)"
  by (simp add: plus_def plus_loop_eq)

lemma minus_eq:
  "minus this vector =
     (if length (components this) \<le> length (components vector)
      then Inr \<lparr>components = map (\<lambda>k. components this ! k - components vector ! k)
                               [0..<length (components this)]\<rparr>
      else Inl InvalidNumber)"
  by (simp add: minus_def minus_loop_eq)

lemma dot_eq:
  "dot this vector =
     (if length (components this) \<le> length (components vector)
      then Inr (\<Sum>k\<leftarrow>[0..<length (components this)]. components this ! k * components vector ! k)
      else Inl InvalidNumber)"
  by (simp add: dot_def dot_loop_eq)

lemma distance_eq:
  "distance cfg library_sqrt this vector =
     (if length (components this) \<le> length (components vector)
      then big_sqrt library_sqrt cfg (\<Sum>k\<leftarrow>[0..<length (components this)].
                           (components this ! k - components vector ! k) ^ 2)
      else Inl InvalidNumber)"
  by (simp add: distance_def distance_loop_eq)

lemma scale_eq:
  "scale this scalar =
     Inr \<lparr>components = map (\<lambda>k. components this ! k * scalar) [0..<length (components this)]\<rparr>"
  by (simp add: scale_def scale_loop_eq)

lemma distance_returns:
  assumes "length (components v) \<le> length (components w)"
  shows "\<exists>r. distance cfg library_sqrt v w = Inr r"
proof -
  have "0 \<le> (\<Sum>k\<leftarrow>[0..<length (components v)]. (components v ! k - components w ! k) ^ 2)"
    by (rule sum_list_nonneg) auto
  from big_sqrt_returns [OF this, of library_sqrt cfg] show ?thesis
    using assms by (simp add: distance_eq)
qed

lemma map_upt_zip:
  "length xs \<le> length ys \<Longrightarrow>
     map (\<lambda>k. f (xs ! k) (ys ! k)) [0..<length xs] = map2 f xs (take (length xs) ys)"
  by (rule nth_equalityI) simp_all

lemma sum_upt_zip:
  "length xs \<le> length ys \<Longrightarrow>
     (\<Sum>k\<leftarrow>[0..<length xs]. f (xs ! k) (ys ! k))
       = (\<Sum>(a, b)\<leftarrow>zip xs (take (length xs) ys). f a b)"
  using map_upt_zip [of xs ys f] by simp

text \<open>
  Claim C10. For vectors \<open>v\<close>, \<open>w\<close> with \<open>dim v \<le> dim w\<close>, the calls \<open>v.plus(w)\<close>,
  \<open>v.minus(w)\<close> and \<open>v.dot(w)\<close> complete without raising, also when \<open>dim v < dim w\<close>:
  \<open>plus\<close> and \<open>minus\<close> return a vector of dimension \<open>dim v\<close> built from the first
  \<open>dim v\<close> components of \<open>w\<close> only, and \<open>dot\<close> sums the first \<open>dim v\<close> componentwise
  products only.
\<close>

theorem short_receiver_completes:
  assumes "length (components v) \<le> length (components w)"
  shows "plus v w = Inr \<lparr>components =
                        map2 (+) (components v) (take (length (components v)) (components w))\<rparr>
       \<and> minus v w = Inr \<lparr>components =
                        map2 (-) (components v) (take (length (components v)) (components w))\<rparr>
       \<and> dot v w = Inr (\<Sum>(a, b)\<leftarrow>zip (components v)
                                      (take (length (components v)) (components w)). a * b)"
  using assms
  by (simp add: plus_eq minus_eq dot_eq map_upt_zip sum_upt_zip)

theorem short_receiver_completes_witness:
  "length (components \<lparr>components = [1, 2]\<rparr>)
     < length (components \<lparr>components = [10, 20, 30]\<rparr>)
   \<and> plus \<lparr>components = [1, 2]\<rparr> \<lparr>components = [10, 20, 30]\<rparr> = Inr \<lparr>components = [11, 22]\<rparr>
   \<and> minus \<lparr>components = [1, 2]\<rparr> \<lparr>components = [10, 20, 30]\<rparr> = Inr \<lparr>components = [- 9, - 18]\<rparr>
   \<and> dot \<lparr>components = [1, 2]\<rparr> \<lparr>components = [10, 20, 30]\<rparr> = Inr 50"
  using short_receiver_completes [of "\<lparr>components = [1, 2]\<rparr>" "\<lparr>components = [10, 20, 30]\<rparr>"]
  by simp

text \<open>
  Claim C8. For vectors \<open>v\<close>, \<open>w\<close> of equal dimension, \<open>v.dot(w)\<close> equals \<open>w.dot(v)\<close>
  (and both calls return a number).
\<close>

theorem dot_commutes:
  assumes "length (components v) = length (components w)"
  shows "dot v w = dot w v \<and> (\<exists>s. dot v w = Inr s)"
  using assms by (simp add: dot_eq mult.commute)

theorem dot_commutes_witness:
  "length (components \<lparr>components = [1, 2, 3]\<rparr>) = length (components \<lparr>components = [4, 5, 6]\<rparr>)
   \<and> dot \<lparr>components = [1, 2, 3]\<rparr> \<lparr>components = [4, 5, 6]\<rparr>
       = dot \<lparr>components = [4, 5, 6]\<rparr> \<lparr>components = [1, 2, 3]\<rparr>"
  using dot_commutes [of "\<lparr>components = [1, 2, 3]\<rparr>" "\<lparr>components = [4, 5, 6]\<rparr>"]
  by simp

section \<open>distance\<close>

lemma distance_refines: "distance cfg library_sqrt v w = distance_spec cfg library_sqrt v w"
proof (cases "length (components v) \<le> length (components w)")
  case True
  then show ?thesis
    by (simp add: distance_eq distance_spec_def minus_eq magnitude_eq comp_def)
next
  case False
  then show ?thesis
    by (simp add: distance_eq distance_spec_def minus_eq)
qed

text \<open>
  Claim C4. For vectors \<open>v\<close>, \<open>w\<close> of equal dimension, \<open>v.distance(w)\<close> returns exactly
  the decimal that \<open>v.minus(w).magnitude()\<close> returns: the loop written out in \<open>distance\<close>
  is equivalent to composing \<open>minus\<close> with \<open>magnitude\<close>. (The two agree for vectors of
  unequal dimension as well, where both raise or both return.)
\<close>

theorem distance_is_magnitude_of_minus:
  "distance cfg library_sqrt v w = distance_spec cfg library_sqrt v w
   \<and> (length (components v) = length (components w) \<longrightarrow>
        (\<exists>d m. minus v w = Inr d \<and> magnitude cfg library_sqrt d = Inr m \<and> distance cfg library_sqrt v w = Inr m))"
proof (intro conjI impI)
  show "distance cfg library_sqrt v w = distance_spec cfg library_sqrt v w"
    by (rule distance_refines)
  assume eq: "length (components v) = length (components w)"
  then obtain d where d: "minus v w = Inr d"
    by (simp add: minus_eq)
  obtain m where m: "magnitude cfg library_sqrt d = Inr m"
    using magnitude_returns [of cfg library_sqrt d] by blast
  have "distance cfg library_sqrt v w = Inr m"
    using d m by (simp add: distance_refines distance_spec_def)
  with d m show "\<exists>d m. minus v w = Inr d \<and> magnitude cfg library_sqrt d = Inr m \<and> distance cfg library_sqrt v w = Inr m"
    by blast
qed

theorem distance_is_magnitude_of_minus_witness:
  "length (components \<lparr>components = [3, 4]\<rparr>) = length (components \<lparr>components = [0, 0]\<rparr>)
   \<and> minus \<lparr>components = [3, 4]\<rparr> \<lparr>components = [0, 0]\<rparr> = Inr \<lparr>components = [3, 4]\<rparr>
   \<and> magnitude default_config rounded_sqrt \<lparr>components = [3, 4]\<rparr> = Inr 5
   \<and> distance default_config rounded_sqrt \<lparr>components = [3, 4]\<rparr> \<lparr>components = [0, 0]\<rparr> = Inr 5"
proof -
  have mi: "minus \<lparr>components = [3, 4]\<rparr> \<lparr>components = [0, 0]\<rparr> = Inr \<lparr>components = [3, 4]\<rparr>"
    by code_simp
  have ma: "magnitude default_config rounded_sqrt \<lparr>components = [3, 4]\<rparr> = Inr 5"
    by code_simp
  from distance_is_magnitude_of_minus
         [of default_config rounded_sqrt "\<lparr>components = [3, 4]\<rparr>" "\<lparr>components = [0, 0]\<rparr>"]
  show ?thesis using mi ma by auto
qed

section \<open>cross\<close>

lemma times_at_eq:
  "times_at v i w j =
     (if i < length (components v)
      then (if j < length (components w) then Inr (components v ! i * components w ! j)
            else Inl InvalidNumber)
      else Inl TypeError)"
  by (simp add: times_at_def call_def big_times_def element_def)

lemma times_at_in:
  "i < length (components v) \<Longrightarrow> j < length (components w) \<Longrightarrow>
     times_at v i w j = Inr (components v ! i * components w ! j)"
  by (simp add: times_at_def call_def big_times_def)

lemma cross_eq:
  assumes "3 \<le> length (components v)" and "3 \<le> length (components w)"
  shows "cross v w = Inr \<lparr>components =
            [components v ! 1 * components w ! 2 - components v ! 2 * components w ! 1,
             components v ! 2 * components w ! 0 - components v ! 0 * components w ! 2,
             components v ! 0 * components w ! 1 - components v ! 1 * components w ! 0]\<rparr>"
proof -
  have "\<And>i j. i < 3 \<Longrightarrow> j < 3 \<Longrightarrow>
          times_at v i w j = Inr (components v ! i * components w ! j)"
    using assms by (intro times_at_in) auto
  then show ?thesis
    by (simp add: cross_def minus_of_def big_minus_def)
qed

lemma cross_short:
  assumes "length (components v) < 3 \<or> length (components w) < 3"
  shows "cross v w =
           Inl (if length (components v) < 2 then TypeError
                else if length (components w) < 3 then InvalidNumber
                else TypeError)"
  using assms
  by (auto simp: cross_def minus_of_def times_at_eq)

text \<open>
  Claim C6. For 3-dimensional vectors, \<open>cross\<close> returns the 3-dimensional vector
  \<open>(v\<^sub>1 w\<^sub>2 - v\<^sub>2 w\<^sub>1, v\<^sub>2 w\<^sub>0 - v\<^sub>0 w\<^sub>2, v\<^sub>0 w\<^sub>1 - v\<^sub>1 w\<^sub>0)\<close>; in particular
  (1, 2, 3) cross (4, 5, 6) is (-3, 6, -3), and (1, 2, 3) dot (4, 5, 6) is 32.
\<close>

theorem cross_determinant:
  "(length (components v) = 3 \<and> length (components w) = 3 \<longrightarrow>
      cross v w = Inr \<lparr>components =
            [components v ! 1 * components w ! 2 - components v ! 2 * components w ! 1,
             components v ! 2 * components w ! 0 - components v ! 0 * components w ! 2,
             components v ! 0 * components w ! 1 - components v ! 1 * components w ! 0]\<rparr>)
   \<and> cross \<lparr>components = [1, 2, 3]\<rparr> \<lparr>components = [4, 5, 6]\<rparr> = Inr \<lparr>components = [- 3, 6, - 3]\<rparr>
   \<and> dot \<lparr>components = [1, 2, 3]\<rparr> \<lparr>components = [4, 5, 6]\<rparr> = Inr 32"
proof (intro conjI impI)
  assume "length (components v) = 3 \<and> length (components w) = 3"
  then show "cross v w = Inr \<lparr>components =
            [components v ! 1 * components w ! 2 - components v ! 2 * components w ! 1,
             components v ! 2 * components w ! 0 - components v ! 0 * components w ! 2,
             components v ! 0 * components w ! 1 - components v ! 1 * components w ! 0]\<rparr>"
    by (simp add: cross_eq)
next
  show "cross \<lparr>components = [1, 2, 3]\<rparr> \<lparr>components = [4, 5, 6]\<rparr> = Inr \<lparr>components = [- 3, 6, - 3]\<rparr>"
    by code_simp
next
  show "dot \<lparr>components = [1, 2, 3]\<rparr> \<lparr>components = [4, 5, 6]\<rparr> = Inr 32"
    by code_simp
qed

theorem cross_determinant_witness:
  "length (components \<lparr>components = [2, 0, 0]\<rparr>) = 3
   \<and> length (components \<lparr>components = [0, 3, 0]\<rparr>) = 3
   \<and> cross \<lparr>components = [2, 0, 0]\<rparr> \<lparr>components = [0, 3, 0]\<rparr> = Inr \<lparr>components = [0, 0, 6]\<rparr>"
  using cross_determinant [of "\<lparr>components = [2, 0, 0]\<rparr>" "\<lparr>components = [0, 3, 0]\<rparr>"]
  by simp

section \<open>Vectors of unequal dimension\<close>

text \<open>
  Claim C1, as stated, fails: the binary operations declare no error for a dimension
  mismatch. With a receiver shorter than the argument, \<open>plus\<close> returns a vector, and
  \<open>cross\<close> of two 4-dimensional vectors returns a vector computed from their first three
  components.
\<close>

theorem mismatch_not_declared:
  "plus \<lparr>components = [1]\<rparr> \<lparr>components = [1, 2]\<rparr> = Inr \<lparr>components = [2]\<rparr>
   \<and> cross \<lparr>components = [1, 2, 3, 7]\<rparr> \<lparr>components = [4, 5, 6, 7]\<rparr>
       = Inr \<lparr>components = [- 3, 6, - 3]\<rparr>"
  by (intro conjI; code_simp)

text \<open>
  Claim C1, amended. The precondition of equal dimension is not checked, and no
  DimensionMismatch or DimensionUnsupported error exists. When the receiver has more
  components than the argument, \<open>plus\<close>, \<open>minus\<close>, \<open>dot\<close> and \<open>distance\<close> raise the
  decimal library's error for an argument that is not a number (the missing component is
  \<open>undefined\<close>). When it has fewer, they raise nothing and compute over the receiver's
  indices only, with the components of the argument at those indices: \<open>plus\<close> and
  \<open>minus\<close> return the componentwise sums and differences, \<open>dot\<close> the sum of the
  products, \<open>distance\<close> the root of the sum of the squared differences. \<open>cross\<close> raises
  when an operand has fewer than three components (a TypeError when the receiver has fewer
  than two, or has two and the argument at least three; the library's error otherwise),
  and when both have at least three it raises nothing and returns the determinant
  expansion of their components 0, 1 and 2, whatever follows them.
\<close>

theorem mismatch_behaviour:
  "(length (components w) < length (components v) \<longrightarrow>
      plus v w = Inl InvalidNumber \<and> minus v w = Inl InvalidNumber
      \<and> dot v w = Inl InvalidNumber \<and> distance cfg library_sqrt v w = Inl InvalidNumber)
   \<and> (length (components v) < length (components w) \<longrightarrow>
        plus v w = Inr \<lparr>components =
            map2 (+) (components v) (take (length (components v)) (components w))\<rparr>
        \<and> minus v w = Inr \<lparr>components =
            map2 (-) (components v) (take (length (components v)) (components w))\<rparr>
        \<and> dot v w = Inr (\<Sum>(a, b)\<leftarrow>zip (components v)
                                    (take (length (components v)) (components w)). a * b)
        \<and> distance cfg library_sqrt v w =
            big_sqrt library_sqrt cfg
              (\<Sum>(a, b)\<leftarrow>zip (components v)
                               (take (length (components v)) (components w)). (a - b) ^ 2)
        \<and> (\<exists>r. distance cfg library_sqrt v w = Inr r))
   \<and> (length (components v) < 3 \<or> length (components w) < 3 \<longrightarrow>
        cross v w =
          Inl (if length (components v) < 2 then TypeError
               else if length (components w) < 3 then InvalidNumber
               else TypeError))
   \<and> (3 \<le> length (components v) \<and> 3 \<le> length (components w) \<longrightarrow>
        cross v w = Inr \<lparr>components =
            [components v ! 1 * components w ! 2 - components v ! 2 * components w ! 1,
             components v ! 2 * components w ! 0 - components v ! 0 * components w ! 2,
             components v ! 0 * components w ! 1 - components v ! 1 * components w ! 0]\<rparr>)"
proof (intro conjI impI)
  assume "length (components w) < length (components v)"
  then show "plus v w = Inl InvalidNumber" "minus v w = Inl InvalidNumber"
    "dot v w = Inl InvalidNumber" "distance cfg library_sqrt v w = Inl InvalidNumber"
    by (simp_all add: plus_eq minus_eq dot_eq distance_eq)
next
  assume "length (components v) < length (components w)"
  then have le: "length (components v) \<le> length (components w)" by simp
  from le show "plus v w = Inr \<lparr>components =
            map2 (+) (components v) (take (length (components v)) (components w))\<rparr>"
    by (simp add: plus_eq map_upt_zip)
  from le show "minus v w = Inr \<lparr>components =
            map2 (-) (components v) (take (length (components v)) (components w))\<rparr>"
    by (simp add: minus_eq map_upt_zip)
  from le show "dot v w = Inr (\<Sum>(a, b)\<leftarrow>zip (components v)
                                    (take (length (components v)) (components w)). a * b)"
    by (simp add: dot_eq sum_upt_zip)
  from le show "distance cfg library_sqrt v w =
            big_sqrt library_sqrt cfg
              (\<Sum>(a, b)\<leftarrow>zip (components v)
                               (take (length (components v)) (components w)). (a - b) ^ 2)"
    using sum_upt_zip [OF le, of "\<lambda>a b. (a - b) ^ 2"] by (simp add: distance_eq)
  from le show "\<exists>r. distance cfg library_sqrt v w = Inr r"
    by (rule distance_returns)
next
  assume "length (components v) < 3 \<or> length (components w) < 3"
  then show "cross v w =
          Inl (if length (components v) < 2 then TypeError
               else if length (components w) < 3 then InvalidNumber
               else TypeError)"
    by (rule cross_short)
next
  assume "3 \<le> length (components v) \<and> 3 \<le> length (components w)"
  then show "cross v w = Inr \<lparr>components =
            [components v ! 1 * components w ! 2 - components v ! 2 * components w ! 1,
             components v ! 2 * components w ! 0 - components v ! 0 * components w ! 2,
             components v ! 0 * components w ! 1 - components v ! 1 * components w ! 0]\<rparr>"
    by (simp add: cross_eq)
qed

theorem mismatch_behaviour_witness:
  "length (components \<lparr>components = [1, 0]\<rparr>) < length (components \<lparr>components = [1, 0, 0]\<rparr>)
   \<and> plus \<lparr>components = [1, 0, 0]\<rparr> \<lparr>components = [1, 0]\<rparr> = Inl InvalidNumber
   \<and> distance default_config rounded_sqrt \<lparr>components = [1, 0, 0]\<rparr> \<lparr>components = [1, 0]\<rparr>
       = Inl InvalidNumber
   \<and> cross \<lparr>components = [1, 0, 0]\<rparr> \<lparr>components = [1, 0]\<rparr> = Inl InvalidNumber
   \<and> length (components \<lparr>components = [1, 2, 3]\<rparr>) < length (components \<lparr>components = [4, 5, 6, 7]\<rparr>)
   \<and> plus \<lparr>components = [1, 2, 3]\<rparr> \<lparr>components = [4, 5, 6, 7]\<rparr> = Inr \<lparr>components = [5, 7, 9]\<rparr>
   \<and> dot \<lparr>components = [1, 2, 3]\<rparr> \<lparr>components = [4, 5, 6, 7]\<rparr> = Inr 32
   \<and> cross \<lparr>components = [1, 2, 3]\<rparr> \<lparr>components = [4, 5, 6, 7]\<rparr> = Inr \<lparr>components = [- 3, 6, - 3]\<rparr>"
  using mismatch_behaviour
          [of "\<lparr>components = [1, 0]\<rparr>" "\<lparr>components = [1, 0, 0]\<rparr>" default_config rounded_sqrt]
        mismatch_behaviour
          [of "\<lparr>components = [4, 5, 6, 7]\<rparr>" "\<lparr>components = [1, 2, 3]\<rparr>" default_config rounded_sqrt]
  by simp

section \<open>direction\<close>

lemma direction_loop_eq:
  assumes "magnitude cfg library_sqrt this = Inr m" and "m \<noteq> 0"
  shows "direction_loop cfg library_sqrt this i comps =
           Inr (comps @ map (\<lambda>k. big_round cfg (components this ! k / m))
                            [i..<length (components this)])"
  using assms
proof (induction cfg library_sqrt this i comps rule: direction_loop.induct)
  case (1 cfg library_sqrt this i comps)
  show ?case
  proof (cases "i < length (components this)")
    case False
    then show ?thesis by (subst direction_loop.simps) simp
  next
    case True
    have bd: "big_div cfg (components this ! i) (Some m)
                = Inr (big_round cfg (components this ! i / m))"
      using "1.prems" by (simp add: big_div_def)
    have step: "direction_loop cfg library_sqrt this i comps =
        direction_loop cfg library_sqrt this (i + 1) (comps @ [big_round cfg (components this ! i / m)])"
      using True "1.prems" by (subst direction_loop.simps) (simp add: bd)
    have ih: "direction_loop cfg library_sqrt this (i + 1) (comps @ [big_round cfg (components this ! i / m)]) =
        Inr ((comps @ [big_round cfg (components this ! i / m)])
             @ map (\<lambda>k. big_round cfg (components this ! k / m)) [i + 1..<length (components this)])"
      by (rule "1.IH" [OF True "1.prems"(1) bd "1.prems"])
    show ?thesis
      using True unfolding step ih by (simp add: upt_conv_Cons)
  qed
qed

lemma direction_eq:
  assumes "magnitude cfg library_sqrt this = Inr m"
  shows "direction cfg library_sqrt this =
           (if m = 0 then Inr (JS_number NaN)
            else Inr (JS_BigVector
                   \<lparr>components = map (\<lambda>c. big_round cfg (c / m)) (components this)\<rparr>))"
proof (cases "m = 0")
  case True
  with assms show ?thesis by (simp add: direction_def big_eq_def)
next
  case False
  have "map (\<lambda>k. big_round cfg (components this ! k / m)) [0..<length (components this)]
        = map (\<lambda>c. big_round cfg (c / m)) (components this)"
    by (rule nth_equalityI) simp_all
  with assms False show ?thesis
    by (simp add: direction_def big_eq_def direction_loop_eq [OF assms False])
qed

text \<open>
  Claim C2, as stated, fails in its second half: for a vector of magnitude zero,
  \<open>direction()\<close> returns the number \<open>NaN\<close>, a numeric sentinel, and not an absent value
  (\<open>undefined\<close> or \<open>null\<close>).
\<close>

theorem direction_zero_is_NaN:
  "direction default_config rounded_sqrt \<lparr>components = [0, 0]\<rparr> = Inr (JS_number NaN)"
  by code_simp

text \<open>
  Claim C2, amended. For every vector \<open>v\<close> with non-zero magnitude \<open>m\<close>, \<open>direction()\<close>
  returns a vector of the same dimension whose \<open>i\<close>-th component is the decimal quotient
  of \<open>v\<close>'s \<open>i\<close>-th component by \<open>m\<close> (less than one unit of the last decimal place
  away from the exact quotient); for every vector whose magnitude is exactly zero it
  returns the numeric sentinel \<open>NaN\<close>, as the comment on the function says.
\<close>

theorem direction_normalizes:
  "(\<forall>m. magnitude cfg library_sqrt v = Inr m \<and> m \<noteq> 0 \<longrightarrow>
      (\<exists>d. direction cfg library_sqrt v = Inr (JS_BigVector d)
           \<and> length (components d) = length (components v)
           \<and> (\<forall>i<length (components v).
                 big_div cfg (components v ! i) (Some m) = Inr (components d ! i)
                 \<and> \<bar>components d ! i - components v ! i / m\<bar> < 1 / 10 ^ DP cfg)))
   \<and> (magnitude cfg library_sqrt v = Inr 0 \<longrightarrow> direction cfg library_sqrt v = Inr (JS_number NaN))"
proof (intro conjI allI impI)
  fix m assume a: "magnitude cfg library_sqrt v = Inr m \<and> m \<noteq> 0"
  define d where "d = \<lparr>components = map (\<lambda>c. big_round cfg (c / m)) (components v)\<rparr>"
  have "direction cfg library_sqrt v = Inr (JS_BigVector d)"
    using a by (simp add: direction_eq d_def)
  moreover have "length (components d) = length (components v)"
    by (simp add: d_def)
  moreover have "\<forall>i<length (components v).
      big_div cfg (components v ! i) (Some m) = Inr (components d ! i)
      \<and> \<bar>components d ! i - components v ! i / m\<bar> < 1 / 10 ^ DP cfg"
    using a by (simp add: d_def big_div_def big_round_close)
  ultimately show "\<exists>d. direction cfg library_sqrt v = Inr (JS_BigVector d)
           \<and> length (components d) = length (components v)
           \<and> (\<forall>i<length (components v).
                 big_div cfg (components v ! i) (Some m) = Inr (components d ! i)
                 \<and> \<bar>components d ! i - components v ! i / m\<bar> < 1 / 10 ^ DP cfg)"
    by blast
next
  assume "magnitude cfg library_sqrt v = Inr 0"
  then show "direction cfg library_sqrt v = Inr (JS_number NaN)"
    by (simp add: direction_eq)
qed

theorem direction_normalizes_witness:
  "magnitude default_config rounded_sqrt \<lparr>components = [3, 4]\<rparr> = Inr 5
   \<and> direction default_config rounded_sqrt \<lparr>components = [3, 4]\<rparr>
       = Inr (JS_BigVector \<lparr>components = [3 / 5, 4 / 5]\<rparr>)
   \<and> magnitude default_config rounded_sqrt \<lparr>components = [0, 0]\<rparr> = Inr 0
   \<and> direction default_config rounded_sqrt \<lparr>components = [0, 0]\<rparr> = Inr (JS_number NaN)"
proof -
  have m: "magnitude default_config rounded_sqrt \<lparr>components = [3, 4]\<rparr> = Inr 5"
    by code_simp
  have d3: "big_div default_config 3 (Some 5) = Inr (3 / 5)"
    by code_simp
  have d4: "big_div default_config 4 (Some 5) = Inr (4 / 5)"
    by code_simp
  from direction_normalizes [of default_config rounded_sqrt "\<lparr>components = [3, 4]\<rparr>"] m
  obtain d where d: "direction default_config rounded_sqrt \<lparr>components = [3, 4]\<rparr> = Inr (JS_BigVector d)"
      "length (components d) = 2"
      "\<forall>i<2. big_div default_config ([3, 4] ! i) (Some 5) = Inr (components d ! i)"
    by auto
  have "components d ! 0 = 3 / 5" "components d ! 1 = 4 / 5"
    using d(3) [rule_format, of 0] d(3) [rule_format, of 1] d3 d4 by simp_all
  with d(2) have "components d = [3 / 5, 4 / 5]"
    by (intro nth_equalityI) (auto simp: less_Suc_eq numeral_2_eq_2)
  then have "d = \<lparr>components = [3 / 5, 4 / 5]\<rparr>" by simp
  with d(1) have n: "direction default_config rounded_sqrt \<lparr>components = [3, 4]\<rparr>
       = Inr (JS_BigVector \<lparr>components = [3 / 5, 4 / 5]\<rparr>)" by simp
  have z: "magnitude default_config rounded_sqrt \<lparr>components = [0, 0]\<rparr> = Inr 0"
    by code_simp
  from direction_normalizes [of default_config rounded_sqrt "\<lparr>components = [0, 0]\<rparr>"] z
  have "direction default_config rounded_sqrt \<lparr>components = [0, 0]\<rparr> = Inr (JS_number NaN)"
    by simp
  with m n z show ?thesis by simp
qed

section \<open>angle and polarCoords\<close>

lemma angle_eval:
  assumes "dot v w = Inr numerator" and "magnitude cfg library_sqrt v = Inr m"
    and "magnitude cfg library_sqrt w = Inr m'" and "big_div cfg numerator (Some (m * m')) = Inr q"
  shows "angle cfg library_sqrt native_acos v w = new_Big (Math_acos native_acos q)"
  using assms by (simp add: angle_def big_times_def)

text \<open>
  Claim C7. When at least one of the two vectors has magnitude exactly zero, \<open>angle\<close>
  raises an error: the denominator is zero, and the decimal division raises on it (or,
  when the receiver is longer than the argument, \<open>dot\<close> has raised before). No
  not-a-number value is returned.
\<close>

theorem angle_zero_magnitude_raises:
  assumes "magnitude cfg library_sqrt v = Inr 0 \<or> magnitude cfg library_sqrt w = Inr 0"
  shows "angle cfg library_sqrt native_acos v w =
           Inl (if length (components v) \<le> length (components w)
                then DivisionByZero else InvalidNumber)"
proof -
  obtain m where m: "magnitude cfg library_sqrt v = Inr m"
    using magnitude_returns [of cfg library_sqrt v] by blast
  obtain m' where m': "magnitude cfg library_sqrt w = Inr m'"
    using magnitude_returns [of cfg library_sqrt w] by blast
  from assms m m' have z: "m * m' = 0" by auto
  show ?thesis
    using m m' z by (simp add: angle_def dot_eq big_times_def big_div_def)
qed

theorem angle_zero_magnitude_raises_witness:
  "magnitude default_config rounded_sqrt \<lparr>components = [0, 0]\<rparr> = Inr 0
   \<and> angle default_config rounded_sqrt (\<lambda>q. 0) \<lparr>components = [0, 0]\<rparr> \<lparr>components = [1, 0]\<rparr>
       = Inl DivisionByZero"
proof -
  have z: "magnitude default_config rounded_sqrt \<lparr>components = [0, 0]\<rparr> = Inr 0"
    by code_simp
  from angle_zero_magnitude_raises
         [of default_config rounded_sqrt "\<lparr>components = [0, 0]\<rparr>" "\<lparr>components = [1, 0]\<rparr>"
             "\<lambda>q. 0"] z
  show ?thesis by simp
qed

lemma polarCoords_eval:
  assumes "magnitude cfg library_sqrt v = Inr m"
  shows "polarCoords cfg library_sqrt native_acos v =
           (if m = 0 then Inr (m, 0)
            else case angle cfg library_sqrt native_acos v \<lparr>components = [1, 0]\<rparr> of
                   Inl e \<Rightarrow> Inl e
                 | Inr a \<Rightarrow> Inr (m, a))"
  using assms by (simp add: polarCoords_def big_eq_def)

text \<open>
  For a 2-dimensional vector of magnitude \<open>m\<close>, and a library root that gives 1 for 1,
  \<open>polarCoords\<close> returns \<open>(0, 0)\<close> when \<open>m\<close> is zero; otherwise the angle is the native arc cosine of the rounded quotient of
  the first component by \<open>m\<close>, provided that quotient is in the domain of the arc cosine.
  It need not be: \<open>m\<close> is rounded, and a rounded \<open>m\<close> can be smaller than the first
  component.
\<close>

lemma polarCoords_2d:
  assumes "length (components v) = 2" and "magnitude cfg library_sqrt v = Inr m"
    and "library_sqrt cfg 1 = 1"
  shows "polarCoords cfg library_sqrt native_acos v =
           (if m = 0 then Inr (0, 0)
            else if 1 + 1 / 2 ^ 53 < \<bar>big_round cfg (components v ! 0 / m)\<bar>
                 then Inl InvalidNumber
                 else Inr (m, native_acos (big_round cfg (components v ! 0 / m))))"
proof (cases "m = 0")
  case True
  with assms show ?thesis by (simp add: polarCoords_eval)
next
  case False
  have d: "dot v \<lparr>components = [1, 0]\<rparr> = Inr (components v ! 0)"
    using assms(1) by (simp add: dot_eq numeral_2_eq_2)
  have u: "magnitude cfg library_sqrt \<lparr>components = [1, 0]\<rparr> = Inr 1"
    using assms(3) by (simp add: magnitude_unit_x)
  have q: "big_div cfg (components v ! 0) (Some (m * 1))
            = Inr (big_round cfg (components v ! 0 / m))"
    using False by (simp add: big_div_def)
  have "angle cfg library_sqrt native_acos v \<lparr>components = [1, 0]\<rparr>
          = new_Big (Math_acos native_acos (big_round cfg (components v ! 0 / m)))"
    by (rule angle_eval [OF d assms(2) u q])
  with False assms show ?thesis
    by (simp add: polarCoords_eval Math_acos_def new_Big_def)
qed

lemma polarCoords_tiny:
  assumes "library_sqrt default_config (15625 / 10 ^ 44) = 1 / 10 ^ 20"
    and "library_sqrt default_config 1 = 1"
  shows "polarCoords default_config library_sqrt native_acos \<lparr>components = [125 / 10 ^ 22, 0]\<rparr>
           = Inl InvalidNumber"
proof -
  have s: "(\<Sum>c\<leftarrow>[125 / 10 ^ 22, 0]. c ^ 2) = (15625 / 10 ^ 44 :: rat)"
    by code_simp
  have "magnitude default_config library_sqrt \<lparr>components = [125 / 10 ^ 22, 0]\<rparr>
          = big_sqrt library_sqrt default_config (15625 / 10 ^ 44)"
    by (simp only: magnitude_eq BigVector.simps s)
  also have "\<dots> = Inr (library_sqrt default_config (15625 / 10 ^ 44))"
    by (rule big_sqrt_pos) simp
  finally have m: "magnitude default_config library_sqrt \<lparr>components = [125 / 10 ^ 22, 0]\<rparr>
          = Inr (1 / 10 ^ 20)"
    by (simp only: assms(1))
  have u: "magnitude default_config library_sqrt \<lparr>components = [1, 0]\<rparr> = Inr 1"
    by (simp only: magnitude_unit_x assms(2))
  have d: "dot \<lparr>components = [125 / 10 ^ 22, 0]\<rparr> \<lparr>components = [1, 0]\<rparr> = Inr (125 / 10 ^ 22)"
    by code_simp
  have q: "big_div default_config (125 / 10 ^ 22) (Some (1 / 10 ^ 20 * 1)) = Inr (5 / 4)"
    by code_simp
  have "angle default_config library_sqrt native_acos
          \<lparr>components = [125 / 10 ^ 22, 0]\<rparr> \<lparr>components = [1, 0]\<rparr>
          = new_Big (Math_acos native_acos (5 / 4))"
    by (rule angle_eval [OF d m u q])
  also have "\<dots> = Inl InvalidNumber"
    by (simp add: Math_acos_def new_Big_def)
  finally have a: "angle default_config library_sqrt native_acos
      \<lparr>components = [125 / 10 ^ 22, 0]\<rparr> \<lparr>components = [1, 0]\<rparr> = Inl InvalidNumber" .
  have "(1 / 10 ^ 20 :: rat) \<noteq> 0" by simp
  then show ?thesis
    by (simp only: polarCoords_eval [OF m] a if_False sum.case)
qed

lemma rounded_sqrt_tiny: "rounded_sqrt default_config (15625 / 10 ^ 44) = 1 / 10 ^ 20"
  by code_simp

lemma rounded_sqrt_one: "rounded_sqrt default_config 1 = 1"
  using rounded_sqrt_square [of 1 default_config] by simp

text \<open>
  Claim C3 does not hold of the code for every 2-dimensional vector. The vector
  \<open>(1.25e-20, 0)\<close> has the sum of squares \<open>1.5625e-40\<close>, whose square root \<open>1.25e-20\<close>
  comes back with 20 decimal places, rounded half up: the magnitude is \<open>1e-20\<close>, not zero.
  The magnitude of \<open>(1, 0)\<close> is 1, the quotient of the first component by the product is
  \<open>1.25\<close>, the native arc cosine of \<open>1.25\<close> is not a number, and \<open>new Big\<close> raises on it:
  \<open>polarCoords\<close> raises instead of returning a pair. This holds with the once-rounded
  root, and with every root that gives \<open>1e-20\<close> for \<open>1.5625e-40\<close> and 1 for 1, as the
  library's does; it holds whatever the native arc cosine is within its domain.
\<close>

theorem polarCoords_raises_on_tiny_vector:
  "polarCoords default_config rounded_sqrt native_acos \<lparr>components = [125 / 10 ^ 22, 0]\<rparr>
     = Inl InvalidNumber
   \<and> (library_sqrt default_config (15625 / 10 ^ 44) = 1 / 10 ^ 20
        \<and> library_sqrt default_config 1 = 1 \<longrightarrow>
      polarCoords default_config library_sqrt native_acos \<lparr>components = [125 / 10 ^ 22, 0]\<rparr>
        = Inl InvalidNumber)"
proof (intro conjI impI)
  show "polarCoords default_config rounded_sqrt native_acos \<lparr>components = [125 / 10 ^ 22, 0]\<rparr>
     = Inl InvalidNumber"
    by (rule polarCoords_tiny [of rounded_sqrt, OF rounded_sqrt_tiny rounded_sqrt_one])
  assume "library_sqrt default_config (15625 / 10 ^ 44) = 1 / 10 ^ 20
        \<and> library_sqrt default_config 1 = 1"
  then show "polarCoords default_config library_sqrt native_acos
      \<lparr>components = [125 / 10 ^ 22, 0]\<rparr> = Inl InvalidNumber"
    by (intro polarCoords_tiny) simp_all
qed

theorem polarCoords_raises_on_tiny_vector_witness:
  "rounded_sqrt default_config (15625 / 10 ^ 44) = 1 / 10 ^ 20
   \<and> rounded_sqrt default_config 1 = 1
   \<and> polarCoords default_config rounded_sqrt (\<lambda>q. 0) \<lparr>components = [125 / 10 ^ 22, 0]\<rparr>
       = Inl InvalidNumber"
  using polarCoords_raises_on_tiny_vector [of "\<lambda>q. 0" rounded_sqrt]
        rounded_sqrt_tiny rounded_sqrt_one
  by (simp only: simp_thms)

section \<open>getComponents\<close>

lemma deref_upd_other:
  "b \<noteq> components_ref v \<Longrightarrow> deref (h(b \<mapsto> ys)) v = deref h v"
  by (simp add: deref_def)

lemma deref_upd_same: "deref (h(components_ref v \<mapsto> ys)) v = Some \<lparr>components = ys\<rparr>"
  by (simp add: deref_def)

text \<open>
  Claim C9, as stated, fails: a caller can change the vector through the array that
  \<open>getComponents()\<close> returns. The vector built on the array (3, 4) has magnitude 5 and
  the dot product 25 with itself; after \<open>v.getComponents()[0] = 0\<close> the same vector has
  magnitude 4 and the dot product 16 with itself.
\<close>

theorem getComponents_is_no_copy:
  "invoke heap_3_4 (BigVector_new 0) (magnitude default_config rounded_sqrt) = Inr 5
   \<and> invoke2 heap_3_4 (BigVector_new 0) (BigVector_new 0) dot = Inr 25
   \<and> array_assign heap_3_4 (getComponents (BigVector_new 0)) 0 0 = Some heap_0_4
   \<and> invoke heap_0_4 (BigVector_new 0) (magnitude default_config rounded_sqrt) = Inr 4
   \<and> invoke2 heap_0_4 (BigVector_new 0) (BigVector_new 0) dot = Inr 16"
proof (intro conjI)
  have "magnitude default_config rounded_sqrt \<lparr>components = [3, 4]\<rparr> = Inr 5"
    by code_simp
  then show "invoke heap_3_4 (BigVector_new 0) (magnitude default_config rounded_sqrt) = Inr 5"
    by (simp add: invoke_def deref_def heap_3_4_def BigVector_new_def)
  show "invoke2 heap_3_4 (BigVector_new 0) (BigVector_new 0) dot = Inr 25"
    by (simp add: invoke2_def deref_def heap_3_4_def BigVector_new_def dot_eq numeral_2_eq_2)
  show "array_assign heap_3_4 (getComponents (BigVector_new 0)) 0 0 = Some heap_0_4"
    by (simp add: array_assign_def heap_3_4_def heap_0_4_def getComponents_def BigVector_new_def)
  have "magnitude default_config rounded_sqrt \<lparr>components = [0, 4]\<rparr> = Inr 4"
    by code_simp
  then show "invoke heap_0_4 (BigVector_new 0) (magnitude default_config rounded_sqrt) = Inr 4"
    by (simp add: invoke_def deref_def heap_0_4_def BigVector_new_def)
  show "invoke2 heap_0_4 (BigVector_new 0) (BigVector_new 0) dot = Inr 16"
    by (simp add: invoke2_def deref_def heap_0_4_def BigVector_new_def dot_eq numeral_2_eq_2)
qed

text \<open>
  Claim C9, amended. \<open>getComponents()\<close> returns the vector's components in order, as the
  very array that the vector holds, which is the array passed to the constructor (no copy
  is made on either side). Every operation computes from the current content of the
  receiver's array and, for a binary operation, of the argument's array: a modification
  of either shows in the results of later operations, and a modification of an array
  that is neither the receiver's nor the argument's does not.
\<close>

theorem getComponents_shares_array:
  "getComponents (BigVector_new a) = a
   \<and> (h a = Some cs \<longrightarrow> invoke h (BigVector_new a) m = m \<lparr>components = cs\<rparr>)
   \<and> invoke (h(getComponents v \<mapsto> ys)) v m = m \<lparr>components = ys\<rparr>
   \<and> (b \<noteq> getComponents v \<longrightarrow> invoke (h(b \<mapsto> ys)) v m = invoke h v m)
   \<and> (h (getComponents v) = Some cs \<and> getComponents w \<noteq> getComponents v \<longrightarrow>
        invoke2 (h(getComponents w \<mapsto> ys)) v w op
          = op \<lparr>components = cs\<rparr> \<lparr>components = ys\<rparr>)
   \<and> (b \<noteq> getComponents v \<and> b \<noteq> getComponents w \<longrightarrow>
        invoke2 (h(b \<mapsto> ys)) v w op = invoke2 h v w op)"
proof (intro conjI impI)
  show "getComponents (BigVector_new a) = a"
    by (simp add: getComponents_def BigVector_new_def)
  show "invoke h (BigVector_new a) m = m \<lparr>components = cs\<rparr>" if "h a = Some cs"
    using that by (simp add: invoke_def deref_def BigVector_new_def)
  show "invoke (h(getComponents v \<mapsto> ys)) v m = m \<lparr>components = ys\<rparr>"
    by (simp add: invoke_def getComponents_def deref_upd_same)
  show "invoke (h(b \<mapsto> ys)) v m = invoke h v m" if "b \<noteq> getComponents v"
    using that by (simp add: invoke_def getComponents_def deref_upd_other)
  show "invoke2 (h(getComponents w \<mapsto> ys)) v w op = op \<lparr>components = cs\<rparr> \<lparr>components = ys\<rparr>"
    if "h (getComponents v) = Some cs \<and> getComponents w \<noteq> getComponents v"
    using that by (simp add: invoke2_def getComponents_def deref_def)
  show "invoke2 (h(b \<mapsto> ys)) v w op = invoke2 h v w op"
    if "b \<noteq> getComponents v \<and> b \<noteq> getComponents w"
    using that by (simp add: invoke2_def getComponents_def deref_upd_other split: option.splits)
qed

theorem getComponents_shares_array_witness:
  "heap_3_4 0 = Some [3, 4]
   \<and> invoke heap_3_4 (BigVector_new 0) (\<lambda>u. scale u 2) = Inr \<lparr>components = [6, 8]\<rparr>
   \<and> invoke (heap_3_4(0 \<mapsto> [0, 4])) (BigVector_new 0) (\<lambda>u. scale u 2) = Inr \<lparr>components = [0, 8]\<rparr>
   \<and> invoke (heap_3_4(1 \<mapsto> [0, 0])) (BigVector_new 0) (\<lambda>u. scale u 2) = Inr \<lparr>components = [6, 8]\<rparr>
   \<and> invoke2 (heap_3_4(1 \<mapsto> [1, 1])) (BigVector_new 0) (BigVector_new 1) plus
       = Inr \<lparr>components = [4, 5]\<rparr>
   \<and> invoke2 (heap_3_4(1 \<mapsto> [1, 1], 2 \<mapsto> [9, 9])) (BigVector_new 0) (BigVector_new 1) plus
       = Inr \<lparr>components = [4, 5]\<rparr>"
proof -
  have h: "heap_3_4 0 = Some [3, 4]" "heap_3_4 1 = None"
    by (simp_all add: heap_3_4_def)
  have g: "getComponents (BigVector_new 0) = 0" "getComponents (BigVector_new 1) = 1"
    by (simp_all add: getComponents_def BigVector_new_def)
  have s: "scale \<lparr>components = [3, 4]\<rparr> 2 = Inr \<lparr>components = [6, 8]\<rparr>"
          "scale \<lparr>components = [0, 4]\<rparr> 2 = Inr \<lparr>components = [0, 8]\<rparr>"
    by (simp_all add: scale_eq numeral_2_eq_2)
  have p: "plus \<lparr>components = [3, 4]\<rparr> \<lparr>components = [1, 1]\<rparr> = Inr \<lparr>components = [4, 5]\<rparr>"
    by (simp add: plus_eq numeral_2_eq_2)
  note t = getComponents_shares_array
  from t [where a = 0 and h = heap_3_4 and cs = "[3, 4]" and m = "\<lambda>u. scale u 2"
            and v = "BigVector_new 0" and ys = "[0, 4]" and b = 1 and w = "BigVector_new 1"
            and op = plus]
       t [where a = 0 and h = heap_3_4 and cs = "[3, 4]" and m = "\<lambda>u. scale u 2"
            and v = "BigVector_new 0" and ys = "[0, 0]" and b = 1 and w = "BigVector_new 1"
            and op = plus]
       t [where a = 0 and h = heap_3_4 and cs = "[3, 4]" and m = "\<lambda>u. scale u 2"
            and v = "BigVector_new 0" and ys = "[1, 1]" and b = 1 and w = "BigVector_new 1"
            and op = plus]
       t [where a = 0 and h = "heap_3_4(1 \<mapsto> [1, 1])" and cs = "[3, 4]" and m = "\<lambda>u. scale u 2"
            and v = "BigVector_new 0" and ys = "[9, 9]" and b = 2 and w = "BigVector_new 1"
            and op = plus]
  show ?thesis using h g s p by simp
qed

end
